theory Spec2Isabelle
  imports Main "HOL-Library.Word"
begin

section \<open>The scope-bound allocator of aizec/std/aize_mem.c\<close>

text \<open>
  The C file keeps two globals: the ledger \<open>aize_mem_bound\<close> (a growable array of
  object references with a length and a capacity) and the scope counter
  \<open>aize_mem_depth\<close>. Every function of the file is embedded below as a function on
  an explicit state holding these globals and the object memory they point into.

  Data model (LP64): \<open>size_t\<close> is a 64-bit word, \<open>uint32_t\<close> a 32-bit word,
  \<open>int\<close> a 32-bit signed integer, a pointer takes 8 bytes. Addresses are natural
  numbers and \<open>0\<close> is the null pointer. What C leaves undefined (an access outside
  the allocated storage, a read of storage never written, a dereference of a
  pointer that is null or points nowhere, signed overflow) is an \<open>error\<close> value.
\<close>

subsection \<open>Types and constants\<close>

type_synonym size_t = "64 word"
type_synonym uint32_t = "32 word"
type_synonym ptr = nat

abbreviation (input) NULL :: ptr where
  "NULL \<equiv> 0"

definition sizeof_ptr :: nat where
  "sizeof_ptr = 8"

definition INT_MAX :: int where
  "INT_MAX = 2147483647"

definition START_SIZE :: size_t where
  "START_SIZE = 256"

definition SCALE_FACTOR :: size_t where
  "SCALE_FACTOR = 2"

definition SHRINK_WHEN :: size_t where
  "SHRINK_WHEN = 4"

definition SHRINK_FACTOR :: size_t where
  "SHRINK_FACTOR = 2"

datatype error =
    NullPointer
  | OutOfBounds nat
  | UninitRead nat
  | WildPointer ptr
  | UninitHeader ptr
  | SignedOverflow

text \<open>
  Modelled from the spec: \<open>aize_mem.h\<close>, which declares \<open>AizeBase\<close>, is not among the
  sources. The spec's object header has two unsigned integer fields, \<open>depth\<close> and
  \<open>ref_count\<close>; \<open>depth\<close> is compared with and assigned from the \<open>uint32_t\<close>
  counter, so both are taken as 32-bit words.
\<close>

record AizeBase =
  depth :: uint32_t
  ref_count :: uint32_t

text \<open>
  One pointer-sized element of the ledger's backing storage: never written since
  the storage was obtained, or holding a pointer.
\<close>

datatype slot = Uninit | Stored ptr

text \<open>
  \<open>arr\<close> is \<open>None\<close> for the null pointer and otherwise the storage it points to,
  one list element per whole pointer that fits into the bytes obtained.
\<close>

record AizeMemArrayList =
  capacity :: size_t
  len :: size_t
  arr :: "slot list option"

text \<open>
  Object memory: an address maps to nothing when no storage is allocated there,
  to \<open>Raw\<close> when storage was obtained but no header was written, and to \<open>Obj h\<close>
  when it holds the header \<open>h\<close>.
\<close>

datatype cell = Raw | Obj AizeBase

record state =
  aize_mem_bound :: AizeMemArrayList
  aize_mem_depth :: uint32_t
  heap :: "ptr \<rightharpoonup> cell"

definition initial_state :: state where
  "initial_state =
     \<lparr>aize_mem_bound = \<lparr>capacity = 0, len = 0, arr = None\<rparr>,
      aize_mem_depth = 1,
      heap = Map.empty\<rparr>"

subsection \<open>The C library and memory accesses\<close>

text \<open>
  \<open>malloc\<close> and \<open>realloc\<close> for the ledger's storage. Whether the request succeeds
  is decided by the environment and passed in as \<open>ok\<close>; a failed request yields the
  null pointer. New storage is not initialised; \<open>realloc\<close> keeps the old contents
  up to the smaller of the two sizes.
\<close>

definition malloc_buf :: "bool \<Rightarrow> size_t \<Rightarrow> slot list option" where
  "malloc_buf ok n =
     (if ok then Some (replicate (unat n div sizeof_ptr) Uninit) else None)"

definition realloc_buf :: "bool \<Rightarrow> slot list option \<Rightarrow> size_t \<Rightarrow> slot list option" where
  "realloc_buf ok old n =
     (if ok then
        (let k = unat n div sizeof_ptr;
             xs = (case old of None \<Rightarrow> [] | Some ys \<Rightarrow> ys)
         in Some (take k xs @ replicate (k - length xs) Uninit))
      else None)"

text \<open>\<open>a[i] = v\<close> and \<open>a[i]\<close> on the ledger's storage.\<close>

definition store_slot :: "slot list option \<Rightarrow> nat \<Rightarrow> ptr \<Rightarrow> error + slot list" where
  "store_slot a i v =
     (case a of
        None \<Rightarrow> Inl NullPointer
      | Some xs \<Rightarrow> if i < length xs then Inr (xs[i := Stored v]) else Inl (OutOfBounds i))"

definition load_slot :: "slot list option \<Rightarrow> nat \<Rightarrow> error + ptr" where
  "load_slot a i =
     (case a of
        None \<Rightarrow> Inl NullPointer
      | Some xs \<Rightarrow>
          if i < length xs then
            (case xs ! i of Uninit \<Rightarrow> Inl (UninitRead i) | Stored p \<Rightarrow> Inr p)
          else Inl (OutOfBounds i))"

text \<open>
  \<open>memset(a + start, 0, num * sizeof(void*))\<close>: the byte count is computed in
  \<open>size_t\<close>; the all-zero pattern is the null pointer. A call that writes no byte
  at offset 0 of the null pointer is taken as doing nothing.
\<close>

definition memset_slots :: "slot list option \<Rightarrow> size_t \<Rightarrow> size_t \<Rightarrow> error + slot list option" where
  "memset_slots a start num =
     (let i = unat start;
          n = unat (num * of_nat sizeof_ptr) div sizeof_ptr
      in case a of
           None \<Rightarrow> if i = 0 \<and> n = 0 then Inr None else Inl NullPointer
         | Some xs \<Rightarrow>
             if i + n \<le> length xs
             then Inr (Some (take i xs @ replicate n (Stored NULL) @ drop (i + n) xs))
             else Inl (OutOfBounds (max i (length xs))))"

text \<open>\<open>obj->depth\<close>, \<open>obj->ref_count\<close>: reading the header behind a pointer.\<close>

definition read_header :: "(ptr \<rightharpoonup> cell) \<Rightarrow> ptr \<Rightarrow> error + AizeBase" where
  "read_header h p =
     (if p = NULL then Inl NullPointer
      else case h p of
             None \<Rightarrow> Inl (WildPointer p)
           | Some Raw \<Rightarrow> Inl (UninitHeader p)
           | Some (Obj b) \<Rightarrow> Inr b)"

subsection \<open>The functions of the file\<close>

definition aize_mem_enter :: "state \<Rightarrow> state" where
  "aize_mem_enter s = s\<lparr>aize_mem_depth := aize_mem_depth s + 1\<rparr>"

definition aize_mem_add_mem :: "bool \<Rightarrow> ptr \<Rightarrow> state \<Rightarrow> error + state" where
  "aize_mem_add_mem ok mem s =
     (let b = aize_mem_bound s;
          b1 = (if len b = capacity b then
                  (if len b = 0 then
                     b\<lparr>arr := malloc_buf ok START_SIZE, capacity := START_SIZE\<rparr>
                   else
                     b\<lparr>arr := realloc_buf ok (arr b) (capacity b * SCALE_FACTOR),
                       capacity := capacity b * SCALE_FACTOR\<rparr>)
                else b)
      in case store_slot (arr b1) (unat (len b1)) mem of
           Inl e \<Rightarrow> Inl e
         | Inr xs \<Rightarrow> Inr (s\<lparr>aize_mem_bound := b1\<lparr>arr := Some xs, len := len b1 + 1\<rparr>\<rparr>))"

definition aize_mem_pop_mem :: "bool \<Rightarrow> size_t \<Rightarrow> state \<Rightarrow> error + state" where
  "aize_mem_pop_mem ok num s =
     (let b = aize_mem_bound s
      in case memset_slots (arr b) (len b - num) num of
           Inl e \<Rightarrow> Inl e
         | Inr a \<Rightarrow>
             (let b1 = b\<lparr>arr := a, len := len b - num\<rparr>;
                  b2 = (if capacity b1 > SCALE_FACTOR * START_SIZE \<and>
                           len b1 - num < capacity b1 div SHRINK_WHEN
                        then
                          b1\<lparr>arr := realloc_buf ok (arr b1) (capacity b1 div SCALE_FACTOR),
                             capacity := capacity b1 div SCALE_FACTOR\<rparr>
                        else b1)
              in Inr (s\<lparr>aize_mem_bound := b2\<rparr>)))"

text \<open>
  \<open>aize_mem_malloc\<close>: \<open>mem\<close> is what the library's \<open>malloc(bytes)\<close> returned (null
  when it failed, else the address of fresh storage, whose contents are not
  initialised). The C function has no \<open>return\<close> statement: the second component
  of the result is the value it hands back, \<open>None\<close> for none.
\<close>

definition aize_mem_malloc :: "bool \<Rightarrow> ptr \<Rightarrow> size_t \<Rightarrow> state \<Rightarrow> error + state \<times> ptr option" where
  "aize_mem_malloc ok mem bytes s =
     (let s1 = (if mem = NULL then s else s\<lparr>heap := (heap s)(mem \<mapsto> Raw)\<rparr>)
      in case aize_mem_add_mem ok mem s1 of
           Inl e \<Rightarrow> Inl e
         | Inr s2 \<Rightarrow> Inr (s2, None))"

text \<open>
  The loop of \<open>aize_mem_collect\<close>, from index \<open>i\<close> downwards, with the locals
  \<open>num_to_pop\<close> and \<open>ret_obj\<close>. The branch for a non-zero \<open>ref_count\<close> is empty in
  the source (a TODO comment), so both arms of that test continue alike.
\<close>

function collect_loop :: "state \<Rightarrow> int \<Rightarrow> int \<Rightarrow> ptr \<Rightarrow> error + state \<times> int \<times> ptr" where
  "collect_loop s i num_to_pop ret_obj =
     (if i \<ge> 0 then
        (case load_slot (arr (aize_mem_bound s)) (nat i) of
           Inl e \<Rightarrow> Inl e
         | Inr obj \<Rightarrow>
             (case read_header (heap s) obj of
                Inl e \<Rightarrow> Inl e
              | Inr h \<Rightarrow>
                  if depth h \<ge> aize_mem_depth s then
                    (if ref_count h \<noteq> 0 then
                       (if num_to_pop = INT_MAX then Inl SignedOverflow
                        else collect_loop s (i - 1) (num_to_pop + 1) ret_obj)
                     else
                       (if num_to_pop = INT_MAX then Inl SignedOverflow
                        else collect_loop s (i - 1) (num_to_pop + 1) ret_obj))
                  else if depth h = 0 then
                    (let s1 = s\<lparr>heap := (heap s)(obj \<mapsto> Obj (h\<lparr>depth := aize_mem_depth s - 1\<rparr>))\<rparr>
                     in if num_to_pop = INT_MAX then Inl SignedOverflow
                        else collect_loop s1 (i - 1) (num_to_pop + 1) obj)
                  else Inr (s, num_to_pop, ret_obj)))
      else Inr (s, num_to_pop, ret_obj))"
  by pat_completeness auto
termination
  by (relation "measure (\<lambda>(s, i, n, r). nat (i + 1))") auto

declare collect_loop.simps [simp del]

text \<open>
  \<open>int i = aize_mem_bound.len\<close> keeps the low 32 bits, read as a signed number;
  \<open>aize_mem_pop_mem(num_to_pop)\<close> converts the \<open>int\<close> to \<open>size_t\<close>.
\<close>

definition aize_mem_collect :: "bool \<Rightarrow> bool \<Rightarrow> state \<Rightarrow> error + state" where
  "aize_mem_collect ok_pop ok_add s =
     (case collect_loop s (sint (ucast (len (aize_mem_bound s)) :: 32 word)) 0 NULL of
        Inl e \<Rightarrow> Inl e
      | Inr (s1, num_to_pop, ret_obj) \<Rightarrow>
          (case aize_mem_pop_mem ok_pop (of_int num_to_pop) s1 of
             Inl e \<Rightarrow> Inl e
           | Inr s2 \<Rightarrow>
               if ret_obj \<noteq> NULL then aize_mem_add_mem ok_add ret_obj s2 else Inr s2))"

definition aize_mem_exit :: "bool \<Rightarrow> bool \<Rightarrow> state \<Rightarrow> error + state" where
  "aize_mem_exit ok_pop ok_add s =
     (case aize_mem_collect ok_pop ok_add s of
        Inl e \<Rightarrow> Inl e
      | Inr s1 \<Rightarrow> Inr (s1\<lparr>aize_mem_depth := aize_mem_depth s1 - 1\<rparr>))"

subsection \<open>The recorded entries\<close>

text \<open>The contents of the ledger: the first \<open>len\<close> slots of its storage.\<close>

definition ledger :: "state \<Rightarrow> slot list" where
  "ledger s =
     (case arr (aize_mem_bound s) of
        None \<Rightarrow> []
      | Some xs \<Rightarrow> take (unat (len (aize_mem_bound s))) xs)"

text \<open>
  \<open>agree_below m xs a\<close>: below index \<open>m\<close> the storage \<open>a\<close> holds what \<open>xs\<close> holds
  there, or slots never written.
\<close>

definition agree_below :: "nat \<Rightarrow> slot list \<Rightarrow> slot list option \<Rightarrow> bool" where
  "agree_below m xs a =
     (case a of
        None \<Rightarrow> True
      | Some ys \<Rightarrow> (\<forall>j<m. j < length ys \<longrightarrow> ys ! j = xs ! j \<or> ys ! j = Uninit))"

subsection \<open>Concrete states\<close>

text \<open>
  The states met when the functions are run from \<open>initial_state\<close> with storage
  requests that succeed. The library hands out the addresses 4096, 4112, ... for
  objects; a block of \<open>START_SIZE\<close> bytes has room for 32 pointers.
\<close>

definition one_alloc :: state where
  "one_alloc =
     \<lparr>aize_mem_bound =
        \<lparr>capacity = 256, len = 1, arr = Some (Stored 4096 # replicate 31 Uninit)\<rparr>,
      aize_mem_depth = 2,
      heap = [4096 \<mapsto> Raw]\<rparr>"

definition two_allocs :: state where
  "two_allocs =
     \<lparr>aize_mem_bound =
        \<lparr>capacity = 256, len = 2,
         arr = Some (Stored 4096 # Stored 4112 # replicate 30 Uninit)\<rparr>,
      aize_mem_depth = 2,
      heap = [4096 \<mapsto> Raw, 4112 \<mapsto> Raw]\<rparr>"

text \<open>\<open>two_allocs\<close> after the caller has written both headers.\<close>

definition two_objects :: state where
  "two_objects =
     two_allocs\<lparr>heap := [4096 \<mapsto> Obj \<lparr>depth = 2, ref_count = 0\<rparr>,
                          4112 \<mapsto> Obj \<lparr>depth = 2, ref_count = 0\<rparr>]\<rparr>"

text \<open>
  \<open>one_alloc\<close> after the caller has written the header and then marked the object
  for return (depth 0).
\<close>

definition marked_object :: state where
  "marked_object = one_alloc\<lparr>heap := [4096 \<mapsto> Obj \<lparr>depth = 0, ref_count = 0\<rparr>]\<rparr>"

text \<open>
  \<open>one_alloc\<close> after the caller has written the header and taken one reference to
  the object: an object of the scope being closed that is still referenced.
\<close>

definition floating_object :: state where
  "floating_object = one_alloc\<lparr>heap := [4096 \<mapsto> Obj \<lparr>depth = 2, ref_count = 1\<rparr>]\<rparr>"

text \<open>One object of the root scope, recorded in the ledger.\<close>

definition root_object :: state where
  "root_object =
     \<lparr>aize_mem_bound =
        \<lparr>capacity = 256, len = 1, arr = Some (Stored 4096 # replicate 31 Uninit)\<rparr>,
      aize_mem_depth = 1,
      heap = [4096 \<mapsto> Obj \<lparr>depth = 1, ref_count = 0\<rparr>]\<rparr>"

text \<open>Appending a list of references one after the other.\<close>

definition add_all :: "ptr list \<Rightarrow> state \<Rightarrow> error + state" where
  "add_all ps s =
     fold (\<lambda>p r. case r of Inl e \<Rightarrow> Inl e | Inr t \<Rightarrow> aize_mem_add_mem True p t) ps (Inr s)"

text \<open>The ledger after 32 appends: every pointer of the 256-byte block is in use.\<close>

definition full_block :: state where
  "full_block =
     \<lparr>aize_mem_bound =
        \<lparr>capacity = 256, len = 32,
         arr = Some (map (\<lambda>k. Stored (4096 + 16 * k)) [0..<32])\<rparr>,
      aize_mem_depth = 1,
      heap = Map.empty\<rparr>"

text \<open>
  A ledger of capacity 1024 holding three entries, in a block of 1024 bytes
  (128 pointers).
\<close>

definition three_of_1024 :: state where
  "three_of_1024 =
     \<lparr>aize_mem_bound =
        \<lparr>capacity = 1024, len = 3,
         arr = Some (Stored 4096 # Stored 4112 # Stored 4128 # replicate 125 Uninit)\<rparr>,
      aize_mem_depth = 2,
      heap = Map.empty\<rparr>"

text \<open>A failed request for object storage (null) after \<open>initial_state\<close> and after \<open>one_alloc\<close>.\<close>

definition null_recorded :: state where
  "null_recorded =
     \<lparr>aize_mem_bound =
        \<lparr>capacity = 256, len = 1, arr = Some (Stored NULL # replicate 31 Uninit)\<rparr>,
      aize_mem_depth = 1,
      heap = Map.empty\<rparr>"

definition null_recorded_second :: state where
  "null_recorded_second =
     \<lparr>aize_mem_bound =
        \<lparr>capacity = 256, len = 2,
         arr = Some (Stored 4096 # Stored NULL # replicate 30 Uninit)\<rparr>,
      aize_mem_depth = 2,
      heap = [4096 \<mapsto> Raw]\<rparr>"

text \<open>
  Since the scan reads \<open>arr[len]\<close> first, \<open>aize_mem_collect\<close> can only complete
  when the slot above the top happens to hold a reference to an object. In
  \<open>stale_top\<close> the ledger records 4096 (depth 1, the enclosing scope) and 4112
  (depth 2, the scope being closed), and the slot above them holds 4128, a
  reference to an object of depth 2.
\<close>

definition stale_top :: state where
  "stale_top =
     \<lparr>aize_mem_bound =
        \<lparr>capacity = 256, len = 2,
         arr = Some (Stored 4096 # Stored 4112 # Stored 4128 # replicate 29 Uninit)\<rparr>,
      aize_mem_depth = 2,
      heap = [4096 \<mapsto> Obj \<lparr>depth = 1, ref_count = 0\<rparr>,
              4112 \<mapsto> Obj \<lparr>depth = 2, ref_count = 0\<rparr>,
              4128 \<mapsto> Obj \<lparr>depth = 2, ref_count = 0\<rparr>]\<rparr>"

definition stale_top_collected :: state where
  "stale_top_collected =
     stale_top\<lparr>aize_mem_bound :=
        \<lparr>capacity = 256, len = 0,
         arr = Some (Stored NULL # Stored NULL # Stored 4128 # replicate 29 Uninit)\<rparr>\<rparr>"

text \<open>
  A scope of depth 2 in which \<open>aize_mem_collect\<close> completes: the ledger records 4096
  (depth 1, the enclosing scope), 4112 (depth 2, reference count 1) and 4128
  (marked for return); the slot above them holds 4144, a reference to an object
  of depth 2.
\<close>

definition floating_scope :: state where
  "floating_scope =
     \<lparr>aize_mem_bound =
        \<lparr>capacity = 256, len = 3,
         arr = Some (Stored 4096 # Stored 4112 # Stored 4128 # Stored 4144 # replicate 28 Uninit)\<rparr>,
      aize_mem_depth = 2,
      heap = [4096 \<mapsto> Obj \<lparr>depth = 1, ref_count = 0\<rparr>,
              4112 \<mapsto> Obj \<lparr>depth = 2, ref_count = 1\<rparr>,
              4128 \<mapsto> Obj \<lparr>depth = 0, ref_count = 0\<rparr>,
              4144 \<mapsto> Obj \<lparr>depth = 2, ref_count = 0\<rparr>]\<rparr>"

definition floating_scope_collected :: state where
  "floating_scope_collected =
     \<lparr>aize_mem_bound =
        \<lparr>capacity = 256, len = 1,
         arr = Some (Stored 4128 # Stored NULL # Stored NULL # Stored 4144 # replicate 28 Uninit)\<rparr>,
      aize_mem_depth = 2,
      heap = [4096 \<mapsto> Obj \<lparr>depth = 1, ref_count = 0\<rparr>,
              4112 \<mapsto> Obj \<lparr>depth = 2, ref_count = 1\<rparr>,
              4128 \<mapsto> Obj \<lparr>depth = 1, ref_count = 0\<rparr>,
              4144 \<mapsto> Obj \<lparr>depth = 2, ref_count = 0\<rparr>]\<rparr>"

section \<open>Evaluation\<close>

lemmas eval_defs =
  aize_mem_exit_def aize_mem_collect_def aize_mem_enter_def aize_mem_malloc_def
  aize_mem_add_mem_def aize_mem_pop_mem_def malloc_buf_def realloc_buf_def
  store_slot_def load_slot_def memset_slots_def read_header_def
  START_SIZE_def SCALE_FACTOR_def SHRINK_WHEN_def sizeof_ptr_def INT_MAX_def
  collect_loop.simps

lemma replicate_numeral_Cons:
  "replicate (numeral k) x = x # replicate (pred_numeral k) x"
  by (simp add: numeral_eq_Suc)

section \<open>The scan of \<open>aize_mem_collect\<close> starts one above the top\<close>

text \<open>
  C3 (zero-allocation scope). The claim: \<open>enter()\<close> directly followed by \<open>exit()\<close>
  leaves ledger and depth counter as they were. In the code the loop of
  \<open>aize_mem_collect\<close> starts at \<open>i = len\<close>. From the initial state (no storage yet,
  \<open>arr\<close> null, \<open>len = 0\<close>) it therefore reads \<open>arr[0]\<close> through the null pointer,
  and \<open>exit()\<close> does not return a state at all.
\<close>

theorem enter_exit_initial_state_fails:
  "aize_mem_exit ok_pop ok_add (aize_mem_enter initial_state) = Inl NullPointer"
  by (simp add: eval_defs initial_state_def)

text \<open>
  C4 (the scan stays inside the ledger). The claim: the scan begins at index
  \<open>len - 1\<close> and reads only indices in \<open>[0, len)\<close>. In the code the first index read
  is \<open>len\<close>: with one recorded entry (\<open>len = 1\<close>) the first read is \<open>arr[1]\<close>, a
  slot that was never written; with 32 recorded entries, which fill the block of
  256 bytes, the first read is \<open>arr[32]\<close>, outside the block.
\<close>

theorem collect_first_read_is_index_len:
  "len (aize_mem_bound root_object) = 1 \<and>
   aize_mem_collect ok_pop ok_add root_object = Inl (UninitRead 1) \<and>
   len (aize_mem_bound full_block) = 32 \<and>
   aize_mem_collect ok_pop ok_add full_block = Inl (OutOfBounds 32)"
  by (simp add: eval_defs root_object_def full_block_def)

text \<open>
  C1 (concrete scenario). The claim: from depth 1 and an empty ledger,
  \<open>enter(); allocate(); allocate(); exit()\<close> evicts the second object, then the
  first, and leaves depth 1 and the old ledger length; the headers were
  initialised to depth 2 and reference count 0 by \<open>allocate()\<close>. In the code the
  two allocations record the references 4096 and 4112 but leave both headers
  unwritten, and \<open>exit()\<close> stops at its first read, \<open>arr[2]\<close>, which is not a ledger
  entry; it does so as well when the caller has written the headers the claim
  describes.
\<close>

theorem scenario_two_allocations_exit_fails:
  "aize_mem_malloc True 4096 16 (aize_mem_enter initial_state) = Inr (one_alloc, None) \<and>
   aize_mem_malloc True 4112 16 one_alloc = Inr (two_allocs, None) \<and>
   heap two_allocs 4096 = Some Raw \<and> heap two_allocs 4112 = Some Raw \<and>
   aize_mem_exit ok_pop ok_add two_allocs = Inl (UninitRead 2) \<and>
   aize_mem_exit ok_pop ok_add two_objects = Inl (UninitRead 2)"
  by (simp add: eval_defs initial_state_def one_alloc_def two_allocs_def two_objects_def
      replicate_numeral_Cons)

text \<open>
  C2 (return-value promotion). The claim: an object allocated at depth \<open>d\<close> and
  marked for return has depth \<open>d - 1\<close> after \<open>exit()\<close> and is back in the ledger. In
  the code, with the marked object 4096 as the only entry at depth 2, \<open>exit()\<close>
  stops at its first read, \<open>arr[1]\<close>, before it reaches the object: nothing is
  re-tagged and nothing is appended.
\<close>

theorem marked_object_exit_fails:
  "heap marked_object 4096 = Some (Obj \<lparr>depth = 0, ref_count = 0\<rparr>) \<and>
   aize_mem_depth marked_object = 2 \<and>
   aize_mem_exit ok_pop ok_add marked_object = Inl (UninitRead 1)"
  by (simp add: eval_defs marked_object_def one_alloc_def)

section \<open>Storage of the ledger\<close>

text \<open>
  C8 (append stays inside the storage). The claim: append never writes outside
  the storage allocated for the buffer. In the code the buffer is requested with
  \<open>capacity\<close> bytes (256 at first) while \<open>capacity\<close> is compared with the number of
  entries, each 8 bytes wide: after 32 appends the block is full although
  \<open>len = 32 < capacity = 256\<close>, and the 33rd append writes \<open>arr[32]\<close>, outside the
  block.
\<close>

theorem append_33rd_writes_outside_block:
  "add_all (map (\<lambda>k. 4096 + 16 * k) [0..<32]) initial_state = Inr full_block \<and>
   aize_mem_add_mem ok mem full_block = Inl (OutOfBounds 32)"
  by (simp add: add_all_def eval_defs initial_state_def full_block_def upt_rec
      replicate_numeral_Cons)

text \<open>
  C9 (when truncate shrinks). The claim: the capacity is halved exactly when the
  length after removal is under a quarter of the capacity and the capacity is
  above the floor. In the code the test subtracts \<open>num\<close> a second time from the
  length already reduced. Removing all three entries of a ledger of capacity 1024
  leaves length 0, under a quarter of 1024, and 1024 is above the floor of 512,
  yet the capacity stays 1024: \<open>0 - 3\<close> wraps around in \<open>size_t\<close>.
\<close>

theorem truncate_all_does_not_shrink:
  "aize_mem_pop_mem ok 3 three_of_1024 =
     Inr (three_of_1024\<lparr>aize_mem_bound :=
       \<lparr>capacity = 1024, len = 0,
        arr = Some (replicate 3 (Stored NULL) @ replicate 125 Uninit)\<rparr>\<rparr>) \<and>
   len (aize_mem_bound three_of_1024) - 3 <
     capacity (aize_mem_bound three_of_1024) div SHRINK_WHEN \<and>
   SCALE_FACTOR * START_SIZE < capacity (aize_mem_bound three_of_1024)"
  by (simp add: eval_defs three_of_1024_def)

section \<open>Allocation\<close>

lemma add_mem_heap:
  "aize_mem_add_mem ok mem s = Inr s' \<Longrightarrow>
     heap s' = heap s \<and> aize_mem_depth s' = aize_mem_depth s"
  by (auto simp: aize_mem_add_mem_def Let_def split: sum.splits if_splits)

lemma pop_mem_heap:
  "aize_mem_pop_mem ok num s = Inr s' \<Longrightarrow>
     heap s' = heap s \<and> aize_mem_depth s' = aize_mem_depth s"
  by (auto simp: aize_mem_pop_mem_def Let_def split: sum.splits if_splits)

text \<open>
  A block of \<open>2 * c\<close> bytes has fewer than \<open>c\<close> pointers: growing a full ledger
  never makes room for the entry at index \<open>c\<close>.
\<close>

lemma realloc_too_small:
  fixes c :: size_t
  shows "unat (c * SCALE_FACTOR) div sizeof_ptr \<le> unat c"
proof -
  have "unat (c * 2) \<le> unat c * 2"
    by (simp add: unat_word_ariths)
  then show ?thesis
    by (simp add: SCALE_FACTOR_def sizeof_ptr_def)
qed

lemma add_mem_result:
  assumes "aize_mem_add_mem ok mem s = Inr s'"
  shows "len (aize_mem_bound s') = len (aize_mem_bound s) + 1 \<and>
         (\<exists>xs. arr (aize_mem_bound s') = Some xs \<and>
               unat (len (aize_mem_bound s)) < length xs \<and>
               xs ! unat (len (aize_mem_bound s)) = Stored mem \<and>
               take (unat (len (aize_mem_bound s))) xs = ledger s)"
proof (cases "len (aize_mem_bound s) = capacity (aize_mem_bound s)")
  case full: True
  show ?thesis
  proof (cases "len (aize_mem_bound s) = 0")
    case True
    with full assms show ?thesis
      by (auto simp: aize_mem_add_mem_def Let_def store_slot_def ledger_def
          split: sum.splits if_splits option.splits)
  next
    case False
    have "unat (capacity (aize_mem_bound s) * SCALE_FACTOR) div sizeof_ptr
            \<le> unat (len (aize_mem_bound s))"
      using realloc_too_small [of "capacity (aize_mem_bound s)"] full by simp
    with False full assms show ?thesis
      by (auto simp: aize_mem_add_mem_def Let_def store_slot_def realloc_buf_def
          split: sum.splits if_splits option.splits)
  qed
next
  case False
  with assms show ?thesis
    by (auto simp: aize_mem_add_mem_def Let_def store_slot_def ledger_def
        split: sum.splits if_splits option.splits)
qed

text \<open>
  C5 (allocate returns the new reference). The claim: \<open>allocate(size)\<close> returns the
  reference it registered. In the code \<open>aize_mem_malloc\<close> ends without a \<open>return\<close>
  statement: the reference 4096 is recorded in the ledger, and no value is handed
  back, here and in every run that completes.
\<close>

theorem allocate_hands_back_nothing:
  "aize_mem_malloc True 4096 16 (aize_mem_enter initial_state) = Inr (one_alloc, None) \<and>
   ledger one_alloc = [Stored 4096] \<and>
   (case aize_mem_malloc ok mem bytes s of Inl e \<Rightarrow> True | Inr (s', r) \<Rightarrow> r = None)"
proof -
  have "aize_mem_malloc True 4096 16 (aize_mem_enter initial_state) = Inr (one_alloc, None)"
    by (simp add: eval_defs initial_state_def one_alloc_def replicate_numeral_Cons)
  moreover have "ledger one_alloc = [Stored 4096]"
    by (simp add: ledger_def one_alloc_def)
  moreover have "case aize_mem_malloc ok mem bytes s of Inl e \<Rightarrow> True | Inr (s', r) \<Rightarrow> r = None"
    by (simp add: aize_mem_malloc_def Let_def split: sum.split)
  ultimately show ?thesis by simp
qed

text \<open>
  C7 (a failed allocation is not registered). The claim: when the request for
  object storage fails, the ledger's length and contents are unchanged. The code
  has no test of what \<open>malloc\<close> returned, here or anywhere else: the null pointer
  is appended like any other reference. As amended: when the request fails and
  \<open>aize_mem_malloc\<close> completes, the ledger is one entry longer, its new top slot
  holds the null reference, the entries below are the ones recorded before, and
  the object memory is unchanged.
\<close>

theorem failed_allocation_is_recorded:
  assumes "aize_mem_malloc ok NULL bytes s = Inr (s', r)"
  shows "len (aize_mem_bound s') = len (aize_mem_bound s) + 1 \<and>
         (\<exists>xs. arr (aize_mem_bound s') = Some xs \<and>
               unat (len (aize_mem_bound s)) < length xs \<and>
               xs ! unat (len (aize_mem_bound s)) = Stored NULL \<and>
               take (unat (len (aize_mem_bound s))) xs = ledger s) \<and>
         heap s' = heap s"
proof -
  from assms have add: "aize_mem_add_mem ok NULL s = Inr s'"
    by (simp add: aize_mem_malloc_def split: sum.splits)
  from add_mem_result [OF add] add_mem_heap [OF add] show ?thesis
    by simp
qed

text \<open>The amended statement at \<open>one_alloc\<close>: the ledger grows from one entry to two.\<close>

theorem failed_allocation_is_recorded_witness:
  "aize_mem_malloc True NULL 16 one_alloc = Inr (null_recorded_second, None) \<and>
   len (aize_mem_bound null_recorded_second) = 2 \<and>
   ledger null_recorded_second = [Stored 4096, Stored NULL]"
proof -
  have run: "aize_mem_malloc True NULL 16 one_alloc = Inr (null_recorded_second, None)"
    by (simp add: eval_defs one_alloc_def null_recorded_second_def replicate_numeral_Cons)
  from failed_allocation_is_recorded [OF run] show ?thesis
    using run by (simp add: ledger_def null_recorded_second_def one_alloc_def)
qed

text \<open>
  The claim as stated fails at the initial state: after the failed request the
  ledger has length 1 instead of 0 and holds the null reference.
\<close>

theorem failed_allocation_changes_ledger:
  "aize_mem_malloc True NULL 16 initial_state = Inr (null_recorded, None) \<and>
   len (aize_mem_bound initial_state) = 0 \<and> len (aize_mem_bound null_recorded) = 1 \<and>
   ledger initial_state = [] \<and> ledger null_recorded = [Stored NULL]"
  by (simp add: eval_defs initial_state_def null_recorded_def ledger_def replicate_numeral_Cons)

section \<open>The loop of \<open>aize_mem_collect\<close>\<close>

text \<open>The four ways in which the loop, started at \<open>i\<close>, can complete.\<close>

lemma collect_loop_Inr_cases:
  assumes "collect_loop s i n r = Inr res"
    and "\<lbrakk>i < 0; res = (s, n, r)\<rbrakk> \<Longrightarrow> P"
    and "\<And>obj h. \<lbrakk>0 \<le> i; load_slot (arr (aize_mem_bound s)) (nat i) = Inr obj;
            read_header (heap s) obj = Inr h; aize_mem_depth s \<le> depth h; n \<noteq> INT_MAX;
            collect_loop s (i - 1) (n + 1) r = Inr res\<rbrakk> \<Longrightarrow> P"
    and "\<And>obj h. \<lbrakk>0 \<le> i; load_slot (arr (aize_mem_bound s)) (nat i) = Inr obj;
            read_header (heap s) obj = Inr h; \<not> aize_mem_depth s \<le> depth h; depth h = 0;
            n \<noteq> INT_MAX;
            collect_loop (s\<lparr>heap := (heap s)(obj \<mapsto> Obj (h\<lparr>depth := aize_mem_depth s - 1\<rparr>))\<rparr>)
              (i - 1) (n + 1) obj = Inr res\<rbrakk> \<Longrightarrow> P"
    and "\<And>obj h. \<lbrakk>0 \<le> i; load_slot (arr (aize_mem_bound s)) (nat i) = Inr obj;
            read_header (heap s) obj = Inr h; \<not> aize_mem_depth s \<le> depth h; depth h \<noteq> 0;
            res = (s, n, r)\<rbrakk> \<Longrightarrow> P"
  shows P
proof (cases "0 \<le> i")
  case False
  with assms(1) have "res = (s, n, r)"
    by (subst (asm) collect_loop.simps) simp
  with False assms(2) show P by simp
next
  case nonneg: True
  from assms(1) nonneg obtain obj where
    ld: "load_slot (arr (aize_mem_bound s)) (nat i) = Inr obj"
    by (subst (asm) collect_loop.simps) (auto split: sum.splits)
  from assms(1) nonneg ld obtain h where
    rd: "read_header (heap s) obj = Inr h"
    by (subst (asm) collect_loop.simps) (auto split: sum.splits)
  from assms(1) nonneg ld rd have body:
    "(if aize_mem_depth s \<le> depth h then
        (if n = INT_MAX then Inl SignedOverflow else collect_loop s (i - 1) (n + 1) r)
      else if depth h = 0 then
        (if n = INT_MAX then Inl SignedOverflow
         else collect_loop (s\<lparr>heap := (heap s)(obj \<mapsto> Obj (h\<lparr>depth := aize_mem_depth s - 1\<rparr>))\<rparr>)
                (i - 1) (n + 1) obj)
      else Inr (s, n, r)) = Inr res"
    by (subst (asm) collect_loop.simps) (simp add: Let_def split del: if_split cong: if_cong)
  show P
  proof (cases "aize_mem_depth s \<le> depth h")
    case True
    with body have "n \<noteq> INT_MAX" "collect_loop s (i - 1) (n + 1) r = Inr res"
      by (auto split: if_splits)
    with nonneg ld rd True assms(3) show P by blast
  next
    case deeper: False
    show P
    proof (cases "depth h = 0")
      case True
      with body deeper have "n \<noteq> INT_MAX"
        "collect_loop (s\<lparr>heap := (heap s)(obj \<mapsto> Obj (h\<lparr>depth := aize_mem_depth s - 1\<rparr>))\<rparr>)
           (i - 1) (n + 1) obj = Inr res"
        by (auto split: if_splits)
      with nonneg ld rd deeper True assms(4) show P by blast
    next
      case False
      with body deeper have "res = (s, n, r)" by simp
      with nonneg ld rd deeper False assms(5) show P by blast
    qed
  qed
qed

lemma collect_loop_neg: "i < 0 \<Longrightarrow> collect_loop s i n r = Inr (s, n, r)"
  by (subst collect_loop.simps) simp

lemma read_header_Obj:
  "read_header hp p = Inr h \<Longrightarrow> p \<noteq> NULL \<and> hp p = Some (Obj h)"
  by (auto simp: read_header_def split: if_splits option.splits cell.splits)

text \<open>The loop changes neither the ledger nor the counter nor what is allocated.\<close>

lemma collect_loop_frame:
  "collect_loop s i n r = Inr (s1, n1, r1) \<Longrightarrow>
     aize_mem_bound s1 = aize_mem_bound s \<and> aize_mem_depth s1 = aize_mem_depth s \<and>
     dom (heap s1) = dom (heap s)"
proof (induction "nat (i + 1)" arbitrary: s i n r)
  case 0
  then have "collect_loop s i n r = Inr (s, n, r)"
    by (simp add: collect_loop_neg)
  with "0.prems" show ?case by simp
next
  case (Suc m)
  have m: "0 \<le> i \<Longrightarrow> m = nat (i - 1 + 1)"
    using Suc.hyps(2) by linarith
  from Suc.prems show ?case
  proof (rule collect_loop_Inr_cases)
    assume "i < 0" "(s1, n1, r1) = (s, n, r)"
    then show ?thesis by simp
  next
    fix obj h
    assume "0 \<le> i" and "collect_loop s (i - 1) (n + 1) r = Inr (s1, n1, r1)"
    with Suc.hyps(1) [OF m] show ?thesis by simp
  next
    fix obj h
    assume rd: "read_header (heap s) obj = Inr h" and nonneg: "0 \<le> i"
      and rec: "collect_loop (s\<lparr>heap := (heap s)(obj \<mapsto> Obj (h\<lparr>depth := aize_mem_depth s - 1\<rparr>))\<rparr>)
              (i - 1) (n + 1) obj = Inr (s1, n1, r1)"
    from Suc.hyps(1) [OF m [OF nonneg] rec] read_header_Obj [OF rd]
    show ?thesis by (auto simp: insert_absorb)
  next
    fix obj h
    assume "(s1, n1, r1) = (s, n, r)"
    then show ?thesis by simp
  qed
qed

lemma aize_mem_collect_Inr:
  assumes "aize_mem_collect ok_pop ok_add s = Inr s'"
  shows "\<exists>s1 num r1 s2.
           collect_loop s (sint (ucast (len (aize_mem_bound s)) :: 32 word)) 0 NULL
             = Inr (s1, num, r1) \<and>
           aize_mem_pop_mem ok_pop (of_int num) s1 = Inr s2 \<and>
           (if r1 \<noteq> NULL then aize_mem_add_mem ok_add r1 s2 = Inr s' else s' = s2)"
  using assms
  by (auto simp: aize_mem_collect_def split: sum.splits prod.splits if_splits)

lemma stale_top_run:
  "aize_mem_collect True True stale_top = Inr stale_top_collected"
  by (simp add: eval_defs stale_top_def stale_top_collected_def word_le_nat_alt
      replicate_numeral_Cons)

section \<open>Release of object storage\<close>

text \<open>
  C6 (evicted objects are released exactly once). The claim: an object evicted
  with \<open>ref_count = 0\<close> has its storage released at that moment, and nothing is
  released while still recorded. The code never releases object storage: there
  is no call of \<open>free\<close> in the file, eviction only clears the slots of the ledger.
  As amended: \<open>aize_mem_collect\<close> releases no storage at all; whatever was
  allocated before the call is allocated after it, evicted or not, so in
  particular nothing is released while it is still recorded in the ledger.
\<close>

theorem collect_releases_no_storage:
  assumes "aize_mem_collect ok_pop ok_add s = Inr s'"
  shows "dom (heap s') = dom (heap s)"
proof -
  from aize_mem_collect_Inr [OF assms] obtain s1 num r1 s2 where
    loop: "collect_loop s (sint (ucast (len (aize_mem_bound s)) :: 32 word)) 0 NULL
             = Inr (s1, num, r1)"
    and pop: "aize_mem_pop_mem ok_pop (of_int num) s1 = Inr s2"
    and add: "if r1 \<noteq> NULL then aize_mem_add_mem ok_add r1 s2 = Inr s' else s' = s2"
    by blast
  from collect_loop_frame [OF loop] have "dom (heap s1) = dom (heap s)" by simp
  moreover from pop_mem_heap [OF pop] have "heap s2 = heap s1" by simp
  moreover from add have "heap s' = heap s2"
    by (auto dest: add_mem_heap split: if_splits)
  ultimately show ?thesis by simp
qed

text \<open>The amended statement at \<open>stale_top\<close>, where the call completes.\<close>

theorem collect_releases_no_storage_witness:
  "aize_mem_collect True True stale_top = Inr stale_top_collected \<and>
   dom (heap stale_top_collected) = {4096, 4112, 4128}"
  using collect_releases_no_storage [OF stale_top_run] stale_top_run
  by (auto simp: stale_top_def)

text \<open>
  The claim as stated fails at \<open>stale_top\<close>: the object 4112, of depth 2 and
  reference count 0, is recorded before the call and evicted by it, and its
  storage is still allocated afterwards.
\<close>

theorem evicted_object_stays_allocated:
  "ledger stale_top = [Stored 4096, Stored 4112] \<and>
   heap stale_top 4112 = Some (Obj \<lparr>depth = 2, ref_count = 0\<rparr>) \<and>
   aize_mem_collect True True stale_top = Inr stale_top_collected \<and>
   ledger stale_top_collected = [] \<and>
   heap stale_top_collected 4112 = Some (Obj \<lparr>depth = 2, ref_count = 0\<rparr>)"
  by (simp add: stale_top_run) (simp add: ledger_def stale_top_def stale_top_collected_def)

section \<open>More on the loop\<close>

lemma collect_loop_count:
  "collect_loop s i n r = Inr (s1, n1, r1) \<Longrightarrow> n \<le> n1 \<and> n1 \<le> n + max 0 (i + 1)"
proof (induction "nat (i + 1)" arbitrary: s i n r)
  case 0
  then have "collect_loop s i n r = Inr (s, n, r)"
    by (simp add: collect_loop_neg)
  with "0.prems" show ?case by simp
next
  case (Suc m)
  have m: "0 \<le> i \<Longrightarrow> m = nat (i - 1 + 1)"
    using Suc.hyps(2) by linarith
  from Suc.prems show ?case
  proof (rule collect_loop_Inr_cases)
    assume "i < 0" "(s1, n1, r1) = (s, n, r)"
    then show ?thesis by simp
  next
    fix obj h
    assume "collect_loop s (i - 1) (n + 1) r = Inr (s1, n1, r1)" "0 \<le> i"
    with Suc.hyps(1) [of "i - 1" s "n + 1" r] m show ?thesis by simp
  next
    fix obj h
    assume nonneg: "0 \<le> i"
      and rec: "collect_loop (s\<lparr>heap := (heap s)(obj \<mapsto> Obj (h\<lparr>depth := aize_mem_depth s - 1\<rparr>))\<rparr>)
              (i - 1) (n + 1) obj = Inr (s1, n1, r1)"
    from Suc.hyps(1) [OF m [OF nonneg] rec] nonneg
    show ?thesis by simp
  next
    fix obj h
    assume "(s1, n1, r1) = (s, n, r)"
    then show ?thesis by simp
  qed
qed

lemma collect_loop_keeps_deep:
  "collect_loop s i n r = Inr (s1, n1, r1) \<Longrightarrow> heap s p = Some (Obj h) \<Longrightarrow>
     aize_mem_depth s \<le> depth h \<Longrightarrow> heap s1 p = Some (Obj h) \<and> (r1 = p \<longrightarrow> r = p)"
proof (induction "nat (i + 1)" arbitrary: s i n r)
  case 0
  then have "collect_loop s i n r = Inr (s, n, r)"
    by (simp add: collect_loop_neg)
  with "0.prems" show ?case by simp
next
  case (Suc m)
  have m: "0 \<le> i \<Longrightarrow> m = nat (i - 1 + 1)"
    using Suc.hyps(2) by linarith
  from Suc.prems(1) show ?case
  proof (rule collect_loop_Inr_cases)
    assume "i < 0" "(s1, n1, r1) = (s, n, r)"
    with Suc.prems show ?thesis by simp
  next
    fix obj g
    assume "collect_loop s (i - 1) (n + 1) r = Inr (s1, n1, r1)" "0 \<le> i"
    with Suc.hyps(1) [of "i - 1" s "n + 1" r] m Suc.prems(2,3) show ?thesis by simp
  next
    fix obj g
    assume nonneg: "0 \<le> i" and rd: "read_header (heap s) obj = Inr g"
      and shallow: "\<not> aize_mem_depth s \<le> depth g"
      and rec: "collect_loop (s\<lparr>heap := (heap s)(obj \<mapsto> Obj (g\<lparr>depth := aize_mem_depth s - 1\<rparr>))\<rparr>)
              (i - 1) (n + 1) obj = Inr (s1, n1, r1)"
    from read_header_Obj [OF rd] Suc.prems(2,3) shallow have ne: "obj \<noteq> p"
      by auto
    with Suc.hyps(1) [OF m [OF nonneg] rec] Suc.prems(2,3)
    show ?thesis by simp
  next
    fix obj g
    assume "(s1, n1, r1) = (s, n, r)"
    with Suc.prems show ?thesis by simp
  qed
qed

text \<open>The scan from i reaches index k when every entry above k is evictable or marked.\<close>

lemma collect_loop_reaches:
  assumes "collect_loop s i n r = Inr (s1, n1, r1)"
    and "int k \<le> i"
    and "arr (aize_mem_bound s) = Some xs"
    and "xs ! k = Stored p" "heap s p = Some (Obj h)" "aize_mem_depth s \<le> depth h"
    and "\<forall>j. k < j \<and> int j \<le> i \<longrightarrow>
           (\<exists>q g. xs ! j = Stored q \<and> heap s q = Some (Obj g) \<and>
                  (aize_mem_depth s \<le> depth g \<or> depth g = 0))"
    and "inj_on (\<lambda>j. xs ! j) {j. k < j \<and> int j \<le> i}"
  shows "n + (i - int k) + 1 \<le> n1"
  using assms
proof (induction "nat (i + 1)" arbitrary: s i n r)
  case 0
  then show ?case by simp
next
  case (Suc m)
  have m: "0 \<le> i \<Longrightarrow> m = nat (i - 1 + 1)"
    using Suc.hyps(2) by linarith
  note above = Suc.prems(7) and inj = Suc.prems(8)
  have stay: "\<forall>j. k < j \<and> int j \<le> i - 1 \<longrightarrow>
           (\<exists>q g. xs ! j = Stored q \<and> heap s q = Some (Obj g) \<and>
                  (aize_mem_depth s \<le> depth g \<or> depth g = 0))"
    using above by auto
  have inj': "inj_on (\<lambda>j. xs ! j) {j. k < j \<and> int j \<le> i - 1}"
    by (rule inj_on_subset [OF inj]) auto
  from Suc.prems(1) show ?case
  proof (rule collect_loop_Inr_cases)
    assume "i < 0"
    with Suc.prems(2) show ?thesis by simp
  next
    fix obj g
    assume nonneg: "0 \<le> i"
      and rec: "collect_loop s (i - 1) (n + 1) r = Inr (s1, n1, r1)"
    show ?thesis
    proof (cases "i = int k")
      case True
      with collect_loop_count [OF rec] show ?thesis by simp
    next
      case False
      with Suc.prems(2) have "int k \<le> i - 1" by simp
      from Suc.hyps(1) [OF m [OF nonneg] rec this Suc.prems(3,4,5,6) stay inj']
      show ?thesis by simp
    qed
  next
    fix obj g
    assume nonneg: "0 \<le> i"
      and ld: "load_slot (arr (aize_mem_bound s)) (nat i) = Inr obj"
      and rd: "read_header (heap s) obj = Inr g"
      and shallow: "\<not> aize_mem_depth s \<le> depth g"
      and rec: "collect_loop (s\<lparr>heap := (heap s)(obj \<mapsto> Obj (g\<lparr>depth := aize_mem_depth s - 1\<rparr>))\<rparr>)
              (i - 1) (n + 1) obj = Inr (s1, n1, r1)"
    let ?s = "s\<lparr>heap := (heap s)(obj \<mapsto> Obj (g\<lparr>depth := aize_mem_depth s - 1\<rparr>))\<rparr>"
    from ld Suc.prems(3) nonneg have here: "xs ! nat i = Stored obj"
      by (auto simp: load_slot_def split: if_splits slot.splits)
    from read_header_Obj [OF rd] Suc.prems(5,6) shallow have ne: "obj \<noteq> p"
      by auto
    from here Suc.prems(4) ne have "i \<noteq> int k" by auto
    with Suc.prems(2) have le: "int k \<le> i - 1" by simp
    have above': "\<forall>j. k < j \<and> int j \<le> i - 1 \<longrightarrow>
           (\<exists>q g. xs ! j = Stored q \<and> heap ?s q = Some (Obj g) \<and>
                  (aize_mem_depth ?s \<le> depth g \<or> depth g = 0))"
    proof (intro allI impI)
      fix j
      assume j: "k < j \<and> int j \<le> i - 1"
      with stay obtain q g' where q: "xs ! j = Stored q" "heap s q = Some (Obj g')"
        "aize_mem_depth s \<le> depth g' \<or> depth g' = 0"
        by blast
      have "xs ! j \<noteq> xs ! nat i"
      proof
        assume "xs ! j = xs ! nat i"
        with inj j nonneg le have "j = nat i"
          by (auto simp: inj_on_def)
        with j nonneg show False by simp
      qed
      with here q(1) have "q \<noteq> obj" by auto
      with q show "\<exists>q g. xs ! j = Stored q \<and> heap ?s q = Some (Obj g) \<and>
                  (aize_mem_depth ?s \<le> depth g \<or> depth g = 0)"
        by auto
    qed
    from Suc.hyps(1) [OF m [OF nonneg] rec le _ Suc.prems(4) _ _ above' inj']
      Suc.prems(3,5,6) ne
    show ?thesis by simp
  next
    fix obj g
    assume nonneg: "0 \<le> i"
      and ld: "load_slot (arr (aize_mem_bound s)) (nat i) = Inr obj"
      and rd: "read_header (heap s) obj = Inr g"
      and shallow: "\<not> aize_mem_depth s \<le> depth g" "depth g \<noteq> 0"
    from ld Suc.prems(3) nonneg have here: "xs ! nat i = Stored obj"
      by (auto simp: load_slot_def split: if_splits slot.splits)
    show ?thesis
    proof (cases "i = int k")
      case True
      with here Suc.prems(4) have "obj = p" by auto
      with read_header_Obj [OF rd] Suc.prems(5,6) shallow show ?thesis by auto
    next
      case False
      with Suc.prems(2) nonneg have "k < nat i \<and> int (nat i) \<le> i" by auto
      with above here obtain g' where "heap s obj = Some (Obj g')"
        "aize_mem_depth s \<le> depth g' \<or> depth g' = 0"
        by fastforce
      with read_header_Obj [OF rd] shallow show ?thesis by auto
    qed
  qed
qed

lemma collect_loop_first_read:
  assumes "collect_loop s i n r = Inr res" and "0 \<le> i" and "arr (aize_mem_bound s) = Some xs"
  shows "nat i < length xs"
  using assms(1)
proof (rule collect_loop_Inr_cases)
  assume "i < 0"
  with assms(2) show ?thesis by simp
next
  fix obj h
  assume "load_slot (arr (aize_mem_bound s)) (nat i) = Inr obj"
  with assms(3) show ?thesis
    by (auto simp: load_slot_def split: if_splits)
next
  fix obj h
  assume "load_slot (arr (aize_mem_bound s)) (nat i) = Inr obj"
  with assms(3) show ?thesis
    by (auto simp: load_slot_def split: if_splits)
next
  fix obj h
  assume "load_slot (arr (aize_mem_bound s)) (nat i) = Inr obj"
  with assms(3) show ?thesis
    by (auto simp: load_slot_def split: if_splits)
qed

text \<open>Changing the reference count of an object of the closing scope changes nothing else.\<close>

lemma collect_loop_ref_count:
  assumes "collect_loop s i n r = Inr (s1, n1, r1)"
    and "heap s p = Some (Obj h)" and "aize_mem_depth s \<le> depth h"
  shows "collect_loop (s\<lparr>heap := (heap s)(p \<mapsto> Obj (h\<lparr>ref_count := c\<rparr>))\<rparr>) i n r =
           Inr (s1\<lparr>heap := (heap s1)(p \<mapsto> Obj (h\<lparr>ref_count := c\<rparr>))\<rparr>, n1, r1)"
  using assms
proof (induction "nat (i + 1)" arbitrary: s i n r)
  case 0
  then have "i < 0" by simp
  with "0.prems"(1) show ?case
    by (simp add: collect_loop_neg)
next
  case (Suc m)
  have m: "0 \<le> i \<Longrightarrow> m = nat (i - 1 + 1)"
    using Suc.hyps(2) by linarith
  let ?t = "s\<lparr>heap := (heap s)(p \<mapsto> Obj (h\<lparr>ref_count := c\<rparr>))\<rparr>"
  from Suc.prems(1) show ?case
  proof (rule collect_loop_Inr_cases)
    assume "i < 0" "(s1, n1, r1) = (s, n, r)"
    then show ?thesis by (simp add: collect_loop_neg)
  next
    fix obj g
    assume nonneg: "0 \<le> i"
      and ld: "load_slot (arr (aize_mem_bound s)) (nat i) = Inr obj"
      and rd: "read_header (heap s) obj = Inr g"
      and deep: "aize_mem_depth s \<le> depth g" and nov: "n \<noteq> INT_MAX"
      and rec: "collect_loop s (i - 1) (n + 1) r = Inr (s1, n1, r1)"
    from rd Suc.prems(2) have rd': "read_header (heap ?t) obj =
        Inr (if obj = p then h\<lparr>ref_count := c\<rparr> else g)"
      by (auto simp: read_header_def split: if_splits option.splits cell.splits)
    from read_header_Obj [OF rd] Suc.prems(2,3) deep
    have deep': "aize_mem_depth s \<le> depth (if obj = p then h\<lparr>ref_count := c\<rparr> else g)"
      by auto
    have "collect_loop ?t i n r = collect_loop ?t (i - 1) (n + 1) r"
      using nonneg ld rd' deep' nov
      by (subst collect_loop.simps) (simp del: if_split cong: if_cong)
    also from Suc.hyps(1) [OF m [OF nonneg] rec Suc.prems(2,3)]
    have "\<dots> = Inr (s1\<lparr>heap := (heap s1)(p \<mapsto> Obj (h\<lparr>ref_count := c\<rparr>))\<rparr>, n1, r1)" .
    finally show ?thesis .
  next
    fix obj g
    assume nonneg: "0 \<le> i"
      and ld: "load_slot (arr (aize_mem_bound s)) (nat i) = Inr obj"
      and rd: "read_header (heap s) obj = Inr g"
      and shallow: "\<not> aize_mem_depth s \<le> depth g" and zero: "depth g = 0"
      and nov: "n \<noteq> INT_MAX"
      and rec: "collect_loop (s\<lparr>heap := (heap s)(obj \<mapsto> Obj (g\<lparr>depth := aize_mem_depth s - 1\<rparr>))\<rparr>)
              (i - 1) (n + 1) obj = Inr (s1, n1, r1)"
    let ?u = "s\<lparr>heap := (heap s)(obj \<mapsto> Obj (g\<lparr>depth := aize_mem_depth s - 1\<rparr>))\<rparr>"
    from read_header_Obj [OF rd] Suc.prems(2,3) shallow have ne: "obj \<noteq> p"
      by auto
    with rd have rd': "read_header (heap ?t) obj = Inr g"
      by (auto simp: read_header_def split: if_splits option.splits cell.splits)
    have twist: "?t\<lparr>heap := (heap ?t)(obj \<mapsto> Obj (g\<lparr>depth := aize_mem_depth ?t - 1\<rparr>))\<rparr>
        = ?u\<lparr>heap := (heap ?u)(p \<mapsto> Obj (h\<lparr>ref_count := c\<rparr>))\<rparr>"
      using ne by (simp add: fun_upd_twist)
    have "collect_loop ?t i n r =
        collect_loop (?t\<lparr>heap := (heap ?t)(obj \<mapsto> Obj (g\<lparr>depth := aize_mem_depth ?t - 1\<rparr>))\<rparr>)
          (i - 1) (n + 1) obj"
      using nonneg ld rd' shallow zero nov
      by (subst collect_loop.simps) (simp add: Let_def del: if_split cong: if_cong)
    also have "\<dots> = collect_loop (?u\<lparr>heap := (heap ?u)(p \<mapsto> Obj (h\<lparr>ref_count := c\<rparr>))\<rparr>)
          (i - 1) (n + 1) obj"
      by (simp only: twist)
    also from Suc.hyps(1) [OF m [OF nonneg] rec] ne Suc.prems(2,3)
    have "\<dots> = Inr (s1\<lparr>heap := (heap s1)(p \<mapsto> Obj (h\<lparr>ref_count := c\<rparr>))\<rparr>, n1, r1)"
      by simp
    finally show ?thesis .
  next
    fix obj g
    assume nonneg: "0 \<le> i"
      and ld: "load_slot (arr (aize_mem_bound s)) (nat i) = Inr obj"
      and rd: "read_header (heap s) obj = Inr g"
      and shallow: "\<not> aize_mem_depth s \<le> depth g" and nz: "depth g \<noteq> 0"
      and res: "(s1, n1, r1) = (s, n, r)"
    from read_header_Obj [OF rd] Suc.prems(2,3) shallow have ne: "obj \<noteq> p"
      by auto
    with rd have rd': "read_header (heap ?t) obj = Inr g"
      by (auto simp: read_header_def split: if_splits option.splits cell.splits)
    have "collect_loop ?t i n r = Inr (?t, n, r)"
      using nonneg ld rd' shallow nz
      by (subst collect_loop.simps) (simp add: Let_def del: if_split cong: if_cong)
    with res show ?thesis by simp
  qed
qed

section \<open>Conversions between \<open>int\<close> and \<open>size_t\<close>\<close>

lemma sint_ucast_len:
  fixes w :: size_t
  assumes "unat w < 2 ^ 31"
  shows "sint (ucast w :: 32 word) = int (unat w)"
proof -
  from assms have "int (unat w) < int (2 ^ 31)"
    by (simp only: of_nat_less_iff)
  then have u: "uint w < 2 ^ 31"
    by simp
  have "uint (ucast w :: 32 word) = take_bit 32 (uint w)"
    by (simp add: unsigned_ucast_eq)
  also have "\<dots> = uint w"
    using u by (simp add: take_bit_int_eq_self)
  finally have eq: "uint (ucast w :: 32 word) = uint w" .
  have "sint (ucast w :: 32 word) = signed_take_bit 31 (uint (ucast w :: 32 word))"
    by (simp add: sint_uint)
  also have "\<dots> = signed_take_bit 31 (uint w)"
    by (simp only: eq)
  also have "\<dots> = uint w"
  proof (rule signed_take_bit_int_eq_self)
    have "- (2 ^ 31) \<le> (0::int)" by simp
    also have "0 \<le> uint w" by simp
    finally show "- (2 ^ 31) \<le> uint w" .
    from u show "uint w < 2 ^ 31" .
  qed
  finally show ?thesis by simp
qed

lemma unat_sub_of_int:
  fixes w :: size_t
  assumes "0 \<le> N" "N \<le> int (unat w)"
  shows "unat (w - of_int N) = unat w - nat N"
proof -
  from assms have le: "nat N \<le> unat w"
    by linarith
  from assms(1) have "(of_int N :: size_t) = of_nat (nat N)"
    by simp
  moreover from le have n: "unat (of_nat (nat N) :: size_t) = nat N"
    by (rule le_unat_uoi)
  moreover from n le have "(of_nat (nat N) :: size_t) \<le> w"
    by (simp only: word_le_nat_alt)
  ultimately show ?thesis
    by (simp add: unat_sub)
qed

lemma memset_count:
  assumes "0 \<le> N" "N < 2 ^ 61"
  shows "unat ((of_int N :: size_t) * of_nat sizeof_ptr) div sizeof_ptr = nat N"
proof -
  from assms have lt: "nat N * 8 < 2 ^ 64"
    by simp
  from assms(1) have "(of_int N :: size_t) * of_nat sizeof_ptr = of_nat (nat N * 8)"
    by (simp add: sizeof_ptr_def)
  moreover from lt have "unat (of_nat (nat N * 8) :: size_t) = nat N * 8"
    by (subst unat_of_nat) simp
  ultimately show ?thesis
    by (simp add: sizeof_ptr_def)
qed

text \<open>Truncating by one more than the length does not fit into any block.\<close>

lemma pop_all_and_one_fails:
  fixes w :: size_t
  assumes "memset_slots (Some xs) (w - of_int (int n + 1)) (of_int (int n + 1)) = Inr a"
    and "unat w = n" and "n < 2 ^ 31"
  shows "2 ^ 64 \<le> length xs"
proof -
  from assms(2) have "w = of_nat n"
    by (simp flip: assms(2))
  then have "w - of_int (int n + 1) = - 1"
    by simp
  then have start: "unat (w - of_int (int n + 1)) = 2 ^ 64 - 1"
    by (simp add: unsigned_minus_1_eq_mask mask_eq_exp_minus_1)
  have "int n + 1 < 2 ^ 61"
    using assms(3) by simp
  with memset_count [of "int n + 1"]
  have cnt: "unat ((of_int (int n + 1) :: size_t) * of_nat sizeof_ptr) div sizeof_ptr = n + 1"
    by (simp add: nat_add_distrib)
  from assms(1) show ?thesis
    unfolding memset_slots_def Let_def start cnt
    by (simp split: if_splits)
qed

section \<open>A completed run has read the slot above the top\<close>

text \<open>
  Whenever \<open>aize_mem_collect\<close> completes (on a ledger whose length fits an \<open>int\<close>),
  the slot at index \<open>len\<close>, which is not an entry of the ledger, held a reference
  to an object with a header. No state reached from \<open>initial_state\<close> by the
  functions of the file is of this kind: there the slot at \<open>len\<close> is outside the
  block, never written, or cleared to null.
\<close>

lemma collect_reads_above_top:
  assumes "aize_mem_collect ok_pop ok_add s = Inr s'"
    and "unat (len (aize_mem_bound s)) < 2 ^ 31"
  shows "\<exists>xs p h. arr (aize_mem_bound s) = Some xs \<and>
           unat (len (aize_mem_bound s)) < length xs \<and>
           xs ! unat (len (aize_mem_bound s)) = Stored p \<and> heap s p = Some (Obj h)"
proof -
  define n where "n = unat (len (aize_mem_bound s))"
  have start: "sint (ucast (len (aize_mem_bound s)) :: 32 word) = int n"
    unfolding n_def by (rule sint_ucast_len [OF assms(2)])
  from aize_mem_collect_Inr [OF assms(1)] start obtain res where
    loop: "collect_loop s (int n) 0 NULL = Inr res"
    by auto
  have slot: "\<exists>xs p h. arr (aize_mem_bound s) = Some xs \<and> n < length xs \<and>
      xs ! n = Stored p \<and> heap s p = Some (Obj h)"
    if "load_slot (arr (aize_mem_bound s)) (nat (int n)) = Inr obj"
      and "read_header (heap s) obj = Inr h" for obj h
    using that read_header_Obj [of "heap s" obj h]
    by (auto simp: load_slot_def split: option.splits if_splits slot.splits)
  from loop have "\<exists>xs p h. arr (aize_mem_bound s) = Some xs \<and> n < length xs \<and>
      xs ! n = Stored p \<and> heap s p = Some (Obj h)"
  proof (rule collect_loop_Inr_cases)
    assume "int n < 0"
    then show ?thesis by simp
  next
    fix obj h
    assume "load_slot (arr (aize_mem_bound s)) (nat (int n)) = Inr obj"
      "read_header (heap s) obj = Inr h"
    then show ?thesis by (rule slot)
  next
    fix obj h
    assume "load_slot (arr (aize_mem_bound s)) (nat (int n)) = Inr obj"
      "read_header (heap s) obj = Inr h"
    then show ?thesis by (rule slot)
  next
    fix obj h
    assume "load_slot (arr (aize_mem_bound s)) (nat (int n)) = Inr obj"
      "read_header (heap s) obj = Inr h"
    then show ?thesis by (rule slot)
  qed
  then show ?thesis
    unfolding n_def .
qed

section \<open>What truncation and append keep\<close>

lemma agree_below_memset:
  "memset_slots (Some xs) start num = Inr a \<Longrightarrow> agree_below (unat start) xs a"
  by (auto simp: memset_slots_def Let_def agree_below_def nth_append split: if_splits)

lemma agree_below_realloc:
  "agree_below m xs a \<Longrightarrow> agree_below m xs (realloc_buf ok a n)"
  by (auto simp: realloc_buf_def Let_def agree_below_def nth_append split: option.splits)

lemma agree_below_malloc: "agree_below m xs (malloc_buf ok n)"
  by (simp add: malloc_buf_def agree_below_def)

lemma pop_mem_result:
  assumes "aize_mem_pop_mem ok num s = Inr s2" and "arr (aize_mem_bound s) = Some xs"
  shows "len (aize_mem_bound s2) = len (aize_mem_bound s) - num \<and>
         agree_below (unat (len (aize_mem_bound s) - num)) xs (arr (aize_mem_bound s2))"
proof -
  from assms obtain a where
    ms: "memset_slots (Some xs) (len (aize_mem_bound s) - num) num = Inr a"
    by (auto simp: aize_mem_pop_mem_def Let_def split: sum.splits)
  from agree_below_memset [OF ms] agree_below_realloc
  have "agree_below (unat (len (aize_mem_bound s) - num)) xs a"
    "\<And>n. agree_below (unat (len (aize_mem_bound s) - num)) xs (realloc_buf ok a n)"
    by auto
  with assms ms show ?thesis
    by (auto simp: aize_mem_pop_mem_def Let_def split: if_splits)
qed

lemma add_mem_agree:
  assumes "aize_mem_add_mem ok mem s = Inr s'"
    and "agree_below m xs (arr (aize_mem_bound s))"
    and "m \<le> unat (len (aize_mem_bound s))"
  shows "agree_below m xs (arr (aize_mem_bound s'))"
proof -
  let ?b = "aize_mem_bound s"
  define b1 where "b1 =
    (if len ?b = capacity ?b then
       (if len ?b = 0 then ?b\<lparr>arr := malloc_buf ok START_SIZE, capacity := START_SIZE\<rparr>
        else ?b\<lparr>arr := realloc_buf ok (arr ?b) (capacity ?b * SCALE_FACTOR),
               capacity := capacity ?b * SCALE_FACTOR\<rparr>)
     else ?b)"
  have len1: "len b1 = len ?b"
    by (simp add: b1_def)
  have ag: "agree_below m xs (arr b1)"
    by (simp add: b1_def agree_below_malloc agree_below_realloc assms(2))
  from assms(1) obtain ys where
    st: "store_slot (arr b1) (unat (len b1)) mem = Inr ys"
    and res: "arr (aize_mem_bound s') = Some ys"
    unfolding aize_mem_add_mem_def Let_def b1_def [symmetric]
    by (auto split: sum.splits)
  from st ag assms(3) len1 have "agree_below m xs (Some ys)"
    by (auto simp: store_slot_def agree_below_def nth_list_update
        split: option.splits if_splits)
  with res show ?thesis by simp
qed

lemma pop_mem_heap_update:
  "aize_mem_pop_mem ok num s = Inr s2 \<Longrightarrow>
     aize_mem_pop_mem ok num (s\<lparr>heap := H\<rparr>) = Inr (s2\<lparr>heap := H\<rparr>)"
  by (auto simp: aize_mem_pop_mem_def Let_def split: sum.splits if_splits)

lemma add_mem_heap_update:
  "aize_mem_add_mem ok mem s = Inr s2 \<Longrightarrow>
     aize_mem_add_mem ok mem (s\<lparr>heap := H\<rparr>) = Inr (s2\<lparr>heap := H\<rparr>)"
  by (auto simp: aize_mem_add_mem_def Let_def split: sum.splits if_splits)

lemma agree_below_no_entry:
  assumes "agree_below m xs (Some ys)" and "m \<le> k" and "k < length xs"
    and "Stored p \<notin> set (take k xs)" and "j < m" and "j < length ys"
  shows "ys ! j \<noteq> Stored p"
proof -
  from assms(2,3,5) have "xs ! j \<in> set (take k xs)"
    by (auto simp: in_set_conv_nth intro!: exI [of _ j])
  with assms(4) have "xs ! j \<noteq> Stored p" by auto
  with assms(1,5,6) show ?thesis
    by (auto simp: agree_below_def)
qed

lemma floating_scope_run:
  "aize_mem_collect True True floating_scope = Inr floating_scope_collected"
  by (simp add: eval_defs floating_scope_def floating_scope_collected_def word_le_nat_alt
      replicate_numeral_Cons fun_upd_twist)

section \<open>Floating objects\<close>

text \<open>
  C10 (a floating object is dropped like an unreferenced one). The claim: during
  \<open>collect()\<close> an entry of the closing scope with a non-zero reference count is
  counted for removal and truncated from the ledger like an entry with
  reference count zero. In the code the scan starts at \<open>i = len\<close>: with the
  floating object 4096 (depth 2, reference count 1) as the only entry at depth
  2, the first read is \<open>arr[1]\<close>, a slot never written, and \<open>aize_mem_collect\<close>
  stops there, before it visits the entry at index 0. Nothing is counted and
  nothing is truncated: the object is still the ledger's only entry.
\<close>

theorem floating_object_collect_fails:
  "heap floating_object 4096 = Some (Obj \<lparr>depth = 2, ref_count = 1\<rparr>) \<and>
   aize_mem_depth floating_object = 2 \<and>
   ledger floating_object = [Stored 4096] \<and>
   aize_mem_collect ok_pop ok_add floating_object = Inl (UninitRead 1)"
  by (simp add: eval_defs floating_object_def one_alloc_def ledger_def)

text \<open>
  What the loop and the truncation do with such an entry on a run that
  completes. Let \<open>aize_mem_collect\<close> complete on a ledger whose storage is no
  larger than its capacity and whose length fits an \<open>int\<close>. Let the entry at
  index \<open>k\<close> refer to an object \<open>p\<close> of the closing scope (depth at least the
  current depth) with a non-zero reference count, recorded nowhere below \<open>k\<close>,
  and let every slot above \<open>k\<close>, up to the slot \<open>len\<close> where the scan starts, hold
  a different reference to an object that is of the closing scope or marked for
  return, so that the scan reaches \<open>k\<close>. Then the entry is truncated (the new
  length is at most \<open>k\<close>), \<open>p\<close> is not recorded in the ledger any more, its header
  is what it was and its storage is still allocated; and the call does exactly
  the same when the reference count of \<open>p\<close> is zero. By
  \<open>collect_reads_above_top\<close> no state reached through the functions of the file
  gives such a run.
\<close>

theorem floating_entry_leaves_ledger:
  assumes run: "aize_mem_collect ok_pop ok_add s = Inr s'"
    and buf: "arr (aize_mem_bound s) = Some xs"
    and size: "length xs \<le> unat (capacity (aize_mem_bound s))"
    and top: "unat (len (aize_mem_bound s)) < 2 ^ 31"
    and k: "k < unat (len (aize_mem_bound s))"
    and entry: "xs ! k = Stored p"
    and hdr: "heap s p = Some (Obj h)"
    and deep: "aize_mem_depth s \<le> depth h"
    and refs: "ref_count h \<noteq> 0"
    and above: "\<forall>j. k < j \<and> j \<le> unat (len (aize_mem_bound s)) \<longrightarrow>
           (\<exists>q g. xs ! j = Stored q \<and> heap s q = Some (Obj g) \<and>
                  (aize_mem_depth s \<le> depth g \<or> depth g = 0))"
    and dist: "inj_on (\<lambda>j. xs ! j) {j. k < j \<and> j \<le> unat (len (aize_mem_bound s))}"
    and once: "Stored p \<notin> set (take k xs)"
  shows "unat (len (aize_mem_bound s')) \<le> k \<and>
         Stored p \<notin> set (ledger s') \<and>
         heap s' p = Some (Obj h) \<and>
         aize_mem_collect ok_pop ok_add (s\<lparr>heap := (heap s)(p \<mapsto> Obj (h\<lparr>ref_count := 0\<rparr>))\<rparr>) =
           Inr (s'\<lparr>heap := (heap s')(p \<mapsto> Obj (h\<lparr>ref_count := 0\<rparr>))\<rparr>)"
proof -
  let ?w = "len (aize_mem_bound s)"
  let ?X = "Obj (h\<lparr>ref_count := 0\<rparr>)"
  define n where "n = unat ?w"
  have start: "sint (ucast ?w :: 32 word) = int n"
    unfolding n_def by (rule sint_ucast_len [OF top])
  note top = top [folded n_def] and k = k [folded n_def]
    and above = above [folded n_def] and dist = dist [folded n_def]
  from aize_mem_collect_Inr [OF run] start obtain s1 N r1 s2 where
    loop: "collect_loop s (int n) 0 NULL = Inr (s1, N, r1)"
    and pop: "aize_mem_pop_mem ok_pop (of_int N) s1 = Inr s2"
    and add: "if r1 \<noteq> NULL then aize_mem_add_mem ok_add r1 s2 = Inr s' else s' = s2"
    by auto
  from collect_loop_frame [OF loop] have
    bound1: "aize_mem_bound s1 = aize_mem_bound s"
    by simp
  from collect_loop_first_read [OF loop _ buf] have inside: "n < length xs"
    by simp
  \<comment> \<open>the entry at k is counted, with everything above it\<close>
  have above': "\<forall>j. k < j \<and> int j \<le> int n \<longrightarrow>
           (\<exists>q g. xs ! j = Stored q \<and> heap s q = Some (Obj g) \<and>
                  (aize_mem_depth s \<le> depth g \<or> depth g = 0))"
    using above by simp
  have dist': "inj_on (\<lambda>j. xs ! j) {j. k < j \<and> int j \<le> int n}"
    using dist by simp
  from k have kn: "int k \<le> int n" by simp
  from collect_loop_reaches [OF loop kn buf entry hdr deep above' dist']
  have lower: "int n - int k + 1 \<le> N" by simp
  from collect_loop_count [OF loop] have upper: "N \<le> int n + 1" by simp
  from collect_loop_keeps_deep [OF loop hdr deep] have
    kept: "heap s1 p = Some (Obj h)" and ret: "r1 = p \<longrightarrow> p = NULL"
    by auto
  \<comment> \<open>the truncation\<close>
  from pop bound1 buf obtain a where
    ms: "memset_slots (Some xs) (?w - of_int N) (of_int N) = Inr a"
    by (auto simp: aize_mem_pop_mem_def Let_def split: sum.splits)
  have "N \<noteq> int n + 1"
  proof
    assume eq: "N = int n + 1"
    from ms have "memset_slots (Some xs) (?w - of_int (int n + 1)) (of_int (int n + 1)) = Inr a"
      unfolding eq .
    from pop_all_and_one_fails [OF this n_def [symmetric] top]
    have "2 ^ 64 \<le> length xs" .
    moreover have "unat (capacity (aize_mem_bound s)) < 2 ^ 64"
      using unsigned_less [of "capacity (aize_mem_bound s)", where 'a = nat] by simp
    ultimately show False using size by simp
  qed
  with upper have Nle: "N \<le> int n" by simp
  from lower k have Npos: "0 \<le> N" by simp
  define m where "m = n - nat N"
  from Nle have "N \<le> int (unat ?w)"
    by (simp only: n_def)
  from unat_sub_of_int [OF Npos this] have len_m: "unat (?w - of_int N) = m"
    by (simp only: m_def n_def)
  from lower Nle k have mk: "m < k"
    unfolding m_def by linarith
  from pop_mem_result [OF pop] bound1 buf len_m have
    len2: "len (aize_mem_bound s2) = ?w - of_int N"
    and ag2: "agree_below m xs (arr (aize_mem_bound s2))"
    by auto
  from pop_mem_heap [OF pop] have heap2: "heap s2 = heap s1" by simp
  from k inside have kx: "k < length xs" by simp
  \<comment> \<open>the ledger afterwards\<close>
  have after: "unat (len (aize_mem_bound s')) \<le> k \<and> Stored p \<notin> set (ledger s') \<and>
      heap s' = heap s1"
  proof (cases "r1 = NULL")
    case True
    with add have s': "s' = s2" by simp
    have "Stored p \<notin> set (ledger s2)"
    proof (cases "arr (aize_mem_bound s2)")
      case None
      then show ?thesis by (simp add: ledger_def)
    next
      case (Some ys)
      with ag2 have ag: "agree_below m xs (Some ys)" by simp
      show ?thesis
        using agree_below_no_entry [OF ag _ kx once] mk Some len2 len_m
        by (auto simp: ledger_def in_set_conv_nth)
    qed
    with s' len2 len_m mk heap2 show ?thesis by simp
  next
    case False
    with add have ad: "aize_mem_add_mem ok_add r1 s2 = Inr s'" by simp
    from False ret have rp: "r1 \<noteq> p" by auto
    from add_mem_result [OF ad] len2 len_m obtain ys where
      len': "len (aize_mem_bound s') = (?w - of_int N) + 1"
      and arr': "arr (aize_mem_bound s') = Some ys"
      and top': "m < length ys" "ys ! m = Stored r1"
      by auto
    from add_mem_agree [OF ad ag2] len2 len_m arr' have ag: "agree_below m xs (Some ys)"
      by simp
    have "unat ((?w - of_int N) + 1) \<le> unat (?w - of_int N) + 1"
      by (simp add: unat_word_ariths)
    with len' len_m have L: "unat (len (aize_mem_bound s')) \<le> m + 1" by simp
    have "ys ! j \<noteq> Stored p" if "j < unat (len (aize_mem_bound s'))" "j < length ys" for j
    proof (cases "j < m")
      case True
      from agree_below_no_entry [OF ag _ kx once True that(2)] mk show ?thesis by simp
    next
      case False
      with that(1) L have "j = m" by simp
      with top'(2) rp show ?thesis by simp
    qed
    then have "Stored p \<notin> set (ledger s')"
      using arr' by (auto simp: ledger_def in_set_conv_nth)
    with L mk add_mem_heap [OF ad] heap2 show ?thesis by simp
  qed
  \<comment> \<open>the same run with the reference count set to zero\<close>
  let ?t = "s\<lparr>heap := (heap s)(p \<mapsto> ?X)\<rparr>"
  from collect_loop_ref_count [OF loop hdr deep, of 0] have
    loop0: "collect_loop ?t (int n) 0 NULL = Inr (s1\<lparr>heap := (heap s1)(p \<mapsto> ?X)\<rparr>, N, r1)" .
  from pop_mem_heap_update [OF pop] have
    pop0: "aize_mem_pop_mem ok_pop (of_int N) (s1\<lparr>heap := (heap s1)(p \<mapsto> ?X)\<rparr>) =
      Inr (s2\<lparr>heap := (heap s1)(p \<mapsto> ?X)\<rparr>)" .
  have add0: "(if r1 \<noteq> NULL then aize_mem_add_mem ok_add r1 (s2\<lparr>heap := (heap s1)(p \<mapsto> ?X)\<rparr>)
      else Inr (s2\<lparr>heap := (heap s1)(p \<mapsto> ?X)\<rparr>)) = Inr (s'\<lparr>heap := (heap s1)(p \<mapsto> ?X)\<rparr>)"
    using add by (auto dest: add_mem_heap_update)
  have "aize_mem_collect ok_pop ok_add ?t = Inr (s'\<lparr>heap := (heap s1)(p \<mapsto> ?X)\<rparr>)"
    using start loop0 pop0 add0 by (simp add: aize_mem_collect_def)
  with after kept show ?thesis by simp
qed

text \<open>
  The statement at \<open>floating_scope\<close> with \<open>k = 1\<close>: the object 4112 leaves the
  ledger with its header unchanged, while the marked object 4128 is appended
  again.
\<close>

theorem floating_entry_leaves_ledger_witness:
  "aize_mem_collect True True floating_scope = Inr floating_scope_collected \<and>
   ledger floating_scope = [Stored 4096, Stored 4112, Stored 4128] \<and>
   heap floating_scope 4112 = Some (Obj \<lparr>depth = 2, ref_count = 1\<rparr>) \<and>
   len (aize_mem_bound floating_scope_collected) = 1 \<and>
   Stored 4112 \<notin> set (ledger floating_scope_collected) \<and>
   heap floating_scope_collected 4112 = Some (Obj \<lparr>depth = 2, ref_count = 1\<rparr>)"
proof -
  let ?xs = "Stored 4096 # Stored 4112 # Stored 4128 # Stored 4144 # replicate 28 Uninit"
  have range: "{j. 1 < j \<and> j \<le> unat (len (aize_mem_bound floating_scope))} = {2, 3}"
    by (auto simp: floating_scope_def)
  have above: "\<forall>j. 1 < j \<and> j \<le> unat (len (aize_mem_bound floating_scope)) \<longrightarrow>
      (\<exists>q g. ?xs ! j = Stored q \<and> heap floating_scope q = Some (Obj g) \<and>
             (aize_mem_depth floating_scope \<le> depth g \<or> depth g = 0))"
  proof (intro allI impI)
    fix j :: nat
    assume "1 < j \<and> j \<le> unat (len (aize_mem_bound floating_scope))"
    with range have "j = 2 \<or> j = 3" by auto
    then show "\<exists>q g. ?xs ! j = Stored q \<and> heap floating_scope q = Some (Obj g) \<and>
             (aize_mem_depth floating_scope \<le> depth g \<or> depth g = 0)"
    proof
      assume "j = 2"
      then show ?thesis
        by (intro exI [of _ 4128] exI [of _ "\<lparr>depth = 0, ref_count = 0\<rparr>"])
          (simp add: floating_scope_def)
    next
      assume "j = 3"
      then show ?thesis
        by (intro exI [of _ 4144] exI [of _ "\<lparr>depth = 2, ref_count = 0\<rparr>"])
          (simp add: floating_scope_def)
    qed
  qed
  have dist: "inj_on (\<lambda>j. ?xs ! j) {j. 1 < j \<and> j \<le> unat (len (aize_mem_bound floating_scope))}"
    unfolding range by simp
  from floating_entry_leaves_ledger [OF floating_scope_run, of ?xs 1 4112
      "\<lparr>depth = 2, ref_count = 1\<rparr>"] above dist
  have "unat (len (aize_mem_bound floating_scope_collected)) \<le> 1 \<and>
      Stored 4112 \<notin> set (ledger floating_scope_collected) \<and>
      heap floating_scope_collected 4112 = Some (Obj \<lparr>depth = 2, ref_count = 1\<rparr>)"
    by (simp add: floating_scope_def)
  then show ?thesis
    using floating_scope_run
    by (simp add: floating_scope_def floating_scope_collected_def ledger_def)
qed

end
